theory Spec2Isabelle
  imports Complex_Main
begin

section \<open>JavaScript numbers and arrays\<close>

text \<open>
  The fields \<open>knot\<close> and \<open>weight\<close> and every intermediate value of the interpolator are
  JavaScript numbers. A number is modelled as a real, or one of the three special values
  of IEEE 754 arithmetic. The operations are exact on finite values: the rounding of
  doubles is not modelled, nor is the sign of zero (a zero divisor counts as \<open>+0\<close>).
  The special values follow IEEE 754: \<open>x / 0\<close> is an infinity for \<open>x \<noteq> 0\<close>, and
  \<open>0 / 0\<close>, \<open>Infinity - Infinity\<close>, \<open>0 * Infinity\<close> and every operation on \<open>NaN\<close>
  give \<open>NaN\<close>.
\<close>

datatype number = Fin real | NaN | PosInf | NegInf

fun neg :: "number \<Rightarrow> number" where
  "neg (Fin a) = Fin (- a)"
| "neg NaN = NaN"
| "neg PosInf = NegInf"
| "neg NegInf = PosInf"

fun add :: "number \<Rightarrow> number \<Rightarrow> number" where
  "add (Fin a) (Fin b) = Fin (a + b)"
| "add NaN _ = NaN"
| "add _ NaN = NaN"
| "add PosInf NegInf = NaN"
| "add NegInf PosInf = NaN"
| "add PosInf _ = PosInf"
| "add NegInf _ = NegInf"
| "add _ PosInf = PosInf"
| "add _ NegInf = NegInf"

definition sub :: "number \<Rightarrow> number \<Rightarrow> number" where
  "sub a b = add a (neg b)"

text \<open>The sign of a number that is not \<open>NaN\<close>: \<open>True\<close> when it is negative.\<close>

fun negative :: "number \<Rightarrow> bool" where
  "negative (Fin a) = (a < 0)"
| "negative NegInf = True"
| "negative _ = False"

definition inf_of :: "bool \<Rightarrow> number" where
  "inf_of s = (if s then NegInf else PosInf)"

fun mul :: "number \<Rightarrow> number \<Rightarrow> number" where
  "mul (Fin a) (Fin b) = Fin (a * b)"
| "mul NaN _ = NaN"
| "mul _ NaN = NaN"
| "mul (Fin a) b = (if a = 0 then NaN else inf_of (negative (Fin a) \<noteq> negative b))"
| "mul a (Fin b) = (if b = 0 then NaN else inf_of (negative a \<noteq> negative (Fin b)))"
| "mul a b = inf_of (negative a \<noteq> negative b)"

fun divide_number :: "number \<Rightarrow> number \<Rightarrow> number" where
  "divide_number (Fin a) (Fin b) =
     (if b = 0 then (if a = 0 then NaN else inf_of (a < 0)) else Fin (a / b))"
| "divide_number NaN _ = NaN"
| "divide_number _ NaN = NaN"
| "divide_number (Fin a) _ = Fin 0"
| "divide_number a (Fin b) = inf_of (negative a \<noteq> (b < 0))"
| "divide_number _ _ = NaN"

text \<open>Comparisons: every comparison with \<open>NaN\<close> is false.\<close>

fun less_number :: "number \<Rightarrow> number \<Rightarrow> bool" where
  "less_number (Fin a) (Fin b) = (a < b)"
| "less_number NaN _ = False"
| "less_number _ NaN = False"
| "less_number PosInf _ = False"
| "less_number _ PosInf = True"
| "less_number _ NegInf = False"
| "less_number NegInf _ = True"

fun eq_number :: "number \<Rightarrow> number \<Rightarrow> bool" where
  "eq_number NaN _ = False"
| "eq_number _ NaN = False"
| "eq_number a b = (a = b)"

definition le_number :: "number \<Rightarrow> number \<Rightarrow> bool" where
  "le_number a b = (less_number a b \<or> eq_number a b)"

fun isFinite :: "number \<Rightarrow> bool" where
  "isFinite (Fin _) = True"
| "isFinite _ = False"

text \<open>
  An array of numbers is a list. Reading \<open>a[k]\<close> outside the array gives
  \<open>undefined\<close>; every read of this program is the operand of an arithmetic operation or
  of a comparison, where \<open>undefined\<close> converts to \<open>NaN\<close>. Writing \<open>a[k] = v\<close> at
  \<open>k \<ge> a.length\<close> extends the array, leaving holes that read as \<open>undefined\<close>.
\<close>

definition aget :: "number list \<Rightarrow> int \<Rightarrow> number" where
  "aget a k = (if 0 \<le> k \<and> nat k < length a then a ! nat k else NaN)"

definition aset :: "number list \<Rightarrow> nat \<Rightarrow> number \<Rightarrow> number list" where
  "aset a k v =
     (if k < length a then a[k := v] else a @ replicate (k - length a) NaN @ [v])"

section \<open>The interpolator node\<close>

text \<open>A control point, and a curve point, is an \<open>SFVec3f\<close> of x3dom's field library.\<close>

datatype SFVec3f = SFVec3f number number number

text \<open>
  Modelled from the spec: \<open>x3dom.fields.SFVec3f.prototype.subtract\<close> is not among the
  sources. The specification forms the direction as the difference of the two curve
  points; the difference is taken by components.
\<close>

fun subtract :: "SFVec3f \<Rightarrow> SFVec3f \<Rightarrow> SFVec3f" where
  "subtract (SFVec3f a b c) (SFVec3f d e f) = SFVec3f (sub a d) (sub b e) (sub c f)"

text \<open>
  The fields of a \<open>NurbsOrientationInterpolator\<close> that \<open>getValue\<close> reads and writes:
  \<open>this._vf.order\<close>, \<open>this._vf.knot\<close>, \<open>this._vf.weight\<close>, the point list of the
  coordinate node \<open>this._cf.controlPoint.node\<close> (\<open>None\<close> when no node is attached) and
  \<open>this.points\<close>. The field \<open>order\<close> is declared with the range \<open>[2, inf)\<close>; the model
  takes every order from 0 on.
\<close>

record node =
  order :: nat
  knot :: "number list"
  controlPoint :: "SFVec3f list option"
  weight :: "number list"
  points :: "SFVec3f list"

definition fractionalShift :: number where
  "fractionalShift = Fin (1 / 100)"

definition downZ :: SFVec3f where
  "downZ = SFVec3f (Fin 0) (Fin 0) (Fin (- 1))"

datatype error = TypeError

text \<open>
  The two functions of x3dom that \<open>getValue\<close> calls and that are not among the sources,
  \<open>x3dom.nodeTypes.NurbsCurve.prototype.curvePoint3DH\<close> and
  \<open>x3dom.fields.Quaternion.rotateFromTo\<close>, are parameters of the model. The curve
  evaluation may throw (it reads \<open>P[i].x\<close> at an index it computes); both are taken to
  leave the fields of the node as they are.
\<close>

record 'q x3dom =
  curvePoint3DH ::
    "int \<Rightarrow> int \<Rightarrow> number list \<Rightarrow> SFVec3f list \<Rightarrow> number list \<Rightarrow> number \<Rightarrow> error + SFVec3f"
  rotateFromTo :: "SFVec3f \<Rightarrow> SFVec3f \<Rightarrow> 'q"

text \<open>
  \<open>createDefaultKnots\<close> reads \<open>this.points\<close> and \<open>this._vf.order\<close> and stores the new
  array in \<open>this._vf.knot\<close>. Both loops write below \<open>knots.length\<close>, so the bound of the
  second loop is the same at every iteration; \<open>knots.length\<close> is at least the order, so
  the start of the second loop is not negative.
\<close>

definition createDefaultKnots :: "node \<Rightarrow> node" where
  "createDefaultKnots s =
     (let n = length (points s);
          knots = replicate (n + order s) (Fin 0);
          knots = foldl (\<lambda>ks k. aset ks k (divide_number (Fin (real k - 1)) (Fin (real n - 1))))
                    knots [order s..<n];
          knots = foldl (\<lambda>ks k. aset ks k (Fin 1))
                    knots [length knots - order s..<length knots]
      in s\<lparr>knot := knots\<rparr>)"

definition curvePoint :: "'q x3dom \<Rightarrow> node \<Rightarrow> number \<Rightarrow> error + SFVec3f" where
  "curvePoint lib s u =
     curvePoint3DH lib (int (length (points s)) - 1) (int (order s) - 1)
       (knot s) (points s) (weight s) u"

text \<open>
  \<open>getValue\<close> returns the rotation, or the exception thrown, together with the node as
  the call leaves it. With no coordinate node attached, \<open>this._cf.controlPoint.node\<close> is
  \<open>null\<close> and reading its \<open>_vf\<close> throws before anything is written. The local variable
  \<open>knot\<close> is bound to the array stored in the field before \<open>createDefaultKnots\<close> stores
  a new one.
\<close>

definition getValue :: "'q x3dom \<Rightarrow> node \<Rightarrow> number \<Rightarrow> (error + 'q) \<times> node" where
  "getValue lib s u =
     (case controlPoint s of
        None \<Rightarrow> (Inl TypeError, s)
      | Some pts \<Rightarrow>
          (let s = s\<lparr>points := pts\<rparr>;
               n = length (points s);
               knot0 = knot s;
               s = (if length knot0 \<noteq> n + order s then createDefaultKnots s else s);
               s = (if length (weight s) \<noteq> n then s\<lparr>weight := replicate n (Fin 1)\<rparr> else s);
               uShift = mul (sub (aget knot0 (int (length knot0) - 1)) (aget knot0 0))
                          fractionalShift
           in case curvePoint lib s u of
                Inl e \<Rightarrow> (Inl e, s)
              | Inr p0 \<Rightarrow>
                  (case curvePoint lib s (add u uShift) of
                     Inl e \<Rightarrow> (Inl e, s)
                   | Inr p1 \<Rightarrow> (Inr (rotateFromTo lib downZ (subtract p0 p1)), s))))"

section \<open>Basis functions\<close>

text \<open>
  \<open>basisFuns\<close>: the arrays \<open>N\<close>, \<open>left\<close> and \<open>right\<close> start empty and grow by the
  writes. The span \<open>i\<close> and the degree \<open>p\<close> are integers; the loop counters \<open>j\<close> and
  \<open>r\<close> are never negative. \<open>basisFuns_inner\<close> is the body of the loop over \<open>r\<close>,
  \<open>basisFuns_depth\<close> the body of the loop over \<open>j = 1..p\<close>.
\<close>

definition basisFuns_inner ::
  "number list \<Rightarrow> number list \<Rightarrow> nat \<Rightarrow> number list \<times> number \<Rightarrow> nat \<Rightarrow> number list \<times> number"
where
  "basisFuns_inner left right j = (\<lambda>(N, saved) r.
     let temp = divide_number (aget N (int r))
                  (add (aget right (int r + 1)) (aget left (int j - int r)))
     in (aset N r (add saved (mul (aget right (int r + 1)) temp)),
         mul (aget left (int j - int r)) temp))"

definition basisFuns_depth ::
  "int \<Rightarrow> number \<Rightarrow> number list \<Rightarrow> number list \<times> number list \<times> number list \<Rightarrow> nat
   \<Rightarrow> number list \<times> number list \<times> number list"
where
  "basisFuns_depth i u U = (\<lambda>(N, left, right) j.
     let left = aset left j (sub u (aget U (i + 1 - int j)));
         right = aset right j (sub (aget U (i + int j)) u);
         (N, saved) = foldl (basisFuns_inner left right j) (N, Fin 0) [0..<j]
     in (aset N j saved, left, right))"

definition basisFuns :: "int \<Rightarrow> number \<Rightarrow> int \<Rightarrow> number list \<Rightarrow> number list" where
  "basisFuns i u p U =
     (let N = aset [] 0 (Fin 1);
          (left, right) =
             foldl (\<lambda>(left, right) j. (aset left j (Fin 0), aset right j (Fin 0)))
               ([], []) [0..<nat (p + 1)];
          (N, left, right) = foldl (basisFuns_depth i u U) (N, left, right) [1..<nat (p + 1)]
      in N)"

text \<open>
  The recurrence as the specification words it: the update reads \<open>left[degree-r]\<close>
  where the source reads \<open>left[j-r]\<close>. Everything else is as in the source.
\<close>

definition basisFuns_spec_inner ::
  "number list \<Rightarrow> number list \<Rightarrow> nat \<Rightarrow> number list \<times> number \<Rightarrow> nat \<Rightarrow> number list \<times> number"
where
  "basisFuns_spec_inner left right degree = (\<lambda>(N, saved) r.
     let temp = divide_number (aget N (int r))
                  (add (aget right (int r + 1)) (aget left (int degree - int r)))
     in (aset N r (add saved (mul (aget right (int r + 1)) temp)),
         mul (aget left (int degree - int r)) temp))"

definition basisFuns_spec_depth ::
  "int \<Rightarrow> number \<Rightarrow> nat \<Rightarrow> number list \<Rightarrow> number list \<times> number list \<times> number list \<Rightarrow> nat
   \<Rightarrow> number list \<times> number list \<times> number list"
where
  "basisFuns_spec_depth i u degree U = (\<lambda>(N, left, right) j.
     let left = aset left j (sub u (aget U (i + 1 - int j)));
         right = aset right j (sub (aget U (i + int j)) u);
         (N, saved) = foldl (basisFuns_spec_inner left right degree) (N, Fin 0) [0..<j]
     in (aset N j saved, left, right))"

definition basisFuns_spec :: "int \<Rightarrow> number \<Rightarrow> int \<Rightarrow> number list \<Rightarrow> number list" where
  "basisFuns_spec i u p U =
     (let N = aset [] 0 (Fin 1);
          (left, right) =
             foldl (\<lambda>(left, right) j. (aset left j (Fin 0), aset right j (Fin 0)))
               ([], []) [0..<nat (p + 1)];
          (N, left, right) =
             foldl (basisFuns_spec_depth i u (nat p) U) (N, left, right) [1..<nat (p + 1)]
      in N)"

text \<open>
  The recurrence without the arrays \<open>left\<close> and \<open>right\<close>: at depth \<open>j\<close> the entry
  \<open>left[k]\<close> is \<open>u - U[i+1-k]\<close> and \<open>right[k]\<close> is \<open>U[i+k] - u\<close>, for \<open>1 \<le> k \<le> j\<close>.
  \<open>triangle_row\<close> turns the basis values of degree \<open>j - 1\<close> into those of degree \<open>j\<close>.
\<close>

definition left_at :: "int \<Rightarrow> number \<Rightarrow> number list \<Rightarrow> nat \<Rightarrow> number" where
  "left_at i u U k = sub u (aget U (i + 1 - int k))"

definition right_at :: "int \<Rightarrow> number \<Rightarrow> number list \<Rightarrow> nat \<Rightarrow> number" where
  "right_at i u U k = sub (aget U (i + int k)) u"

definition triangle_inner ::
  "int \<Rightarrow> number \<Rightarrow> number list \<Rightarrow> nat \<Rightarrow> number list \<times> number \<Rightarrow> nat \<Rightarrow> number list \<times> number"
where
  "triangle_inner i u U j = (\<lambda>(N, saved) r.
     let temp = divide_number (aget N (int r))
                  (add (right_at i u U (r + 1)) (left_at i u U (j - r)))
     in (aset N r (add saved (mul (right_at i u U (r + 1)) temp)),
         mul (left_at i u U (j - r)) temp))"

definition triangle_row ::
  "int \<Rightarrow> number \<Rightarrow> number list \<Rightarrow> number list \<Rightarrow> nat \<Rightarrow> number list"
where
  "triangle_row i u U N j =
     (let (N, saved) = foldl (triangle_inner i u U j) (N, Fin 0) [0..<j] in aset N j saved)"

text \<open>
  The contents of \<open>left\<close> (with \<open>f = left_at i u U\<close>) and of \<open>right\<close> after the depths
  \<open>1..m\<close>, in an array of length \<open>n\<close>.
\<close>

definition filled :: "(nat \<Rightarrow> number) \<Rightarrow> nat \<Rightarrow> nat \<Rightarrow> number list" where
  "filled f n m = map (\<lambda>k. if 1 \<le> k \<and> k \<le> m then f k else Fin 0) [0..<n]"

text \<open>The sum of an array, accumulated from the left.\<close>

definition total :: "number list \<Rightarrow> number" where
  "total N = foldl add (Fin 0) N"

section \<open>Span lookup\<close>

text \<open>
  Modelled from the spec: \<open>findSpan\<close> only forwards to
  \<open>x3dom.nodeTypes.NurbsCurve.prototype.findSpan\<close>, which is not among the sources. The
  specification asks for the index \<open>i\<close> with \<open>knots[i] \<le> u < knots[i+1]\<close>, found by a
  binary search or a linear scan, and for \<open>n\<close> when \<open>u\<close> is at the last knot or beyond
  it. The model is the linear scan; it has no answer (\<open>None\<close>) where the specification
  gives none, below the first knot and at \<open>NaN\<close>.
\<close>

definition findSpan :: "int \<Rightarrow> int \<Rightarrow> number \<Rightarrow> number list \<Rightarrow> int option" where
  "findSpan n p u U =
     (if le_number (aget U (int (length U) - 1)) u then Some n
      else map_option int
             (find (\<lambda>i. le_number (aget U (int i)) u \<and> less_number u (aget U (int i + 1)))
                [0..<length U - 1]))"

section \<open>Auxiliary definitions\<close>

text \<open>The entry of the default knot vector at index \<open>k\<close>, for \<open>n\<close> points and order \<open>p\<close>.\<close>

definition default_knot :: "nat \<Rightarrow> nat \<Rightarrow> nat \<Rightarrow> number" where
  "default_knot n p k =
     (if n \<le> k then Fin 1
      else if p \<le> k then divide_number (Fin (real k - 1)) (Fin (real n - 1))
      else Fin 0)"

text \<open>The node after the two repairs of \<open>getValue\<close>, with \<open>pts\<close> the attached points.\<close>

definition repaired :: "node \<Rightarrow> SFVec3f list \<Rightarrow> node" where
  "repaired s pts =
     s\<lparr>points := pts,
       knot := (if length (knot s) \<noteq> length pts + order s
                then knot (createDefaultKnots (s\<lparr>points := pts\<rparr>)) else knot s),
       weight := (if length (weight s) \<noteq> length pts
                  then replicate (length pts) (Fin 1) else weight s)\<rparr>"

text \<open>The shift that \<open>getValue\<close> computes from the array \<open>k\<close>.\<close>

definition uShift_of :: "number list \<Rightarrow> number" where
  "uShift_of k = mul (sub (aget k (int (length k) - 1)) (aget k 0)) fractionalShift"

section \<open>Example inputs\<close>

text \<open>
  Four control points on the z axis, and the node that holds them with the initial values
  of its other fields: order 3, no knots, no weights.
\<close>

definition line_points :: "SFVec3f list" where
  "line_points =
     [SFVec3f (Fin 0) (Fin 0) (Fin 0), SFVec3f (Fin 0) (Fin 0) (Fin 1),
      SFVec3f (Fin 0) (Fin 0) (Fin 2), SFVec3f (Fin 0) (Fin 0) (Fin 3)]"

definition fresh_node :: node where
  "fresh_node =
     \<lparr>order = 3, knot = [], controlPoint = Some line_points, weight = [], points = []\<rparr>"

text \<open>The same node once \<open>this.points\<close> holds the control points.\<close>

definition line_node :: node where
  "line_node = fresh_node\<lparr>points := line_points\<rparr>"

text \<open>A node with a single control point and order 2, \<open>this.points\<close> assigned.\<close>

definition single_node :: node where
  "single_node =
     \<lparr>order = 2, knot = [], controlPoint = Some [SFVec3f (Fin 0) (Fin 0) (Fin 0)],
      weight = [], points = [SFVec3f (Fin 0) (Fin 0) (Fin 0)]\<rparr>"

text \<open>
  A node with one control point and order 3, whose two knots and empty weight array both
  have the wrong length, and a node without a coordinate node.
\<close>

definition few_node :: node where
  "few_node =
     \<lparr>order = 3, knot = [Fin 0, Fin 1],
      controlPoint = Some [SFVec3f (Fin 0) (Fin 0) (Fin 0)], weight = [], points = []\<rparr>"

definition empty_node :: node where
  "empty_node = \<lparr>order = 3, knot = [], controlPoint = None, weight = [], points = []\<rparr>"

text \<open>A node whose knots decrease, with as many knots as points plus order.\<close>

definition decreasing_node :: node where
  "decreasing_node =
     \<lparr>order = 2, knot = [Fin 3, Fin 2, Fin 1, Fin 0],
      controlPoint = Some [SFVec3f (Fin 0) (Fin 0) (Fin 0), SFVec3f (Fin 0) (Fin 0) (Fin 1)],
      weight = [], points = []\<rparr>"

text \<open>
  A stand-in for the two library functions: the curve point is \<open>(u, u, u)\<close> and the
  rotation is the pair of its two arguments.
\<close>

definition stub :: "(SFVec3f \<times> SFVec3f) x3dom" where
  "stub = \<lparr>curvePoint3DH = (\<lambda>n p U P W u. Inr (SFVec3f u u u)), rotateFromTo = Pair\<rparr>"

text \<open>
  A second stand-in, whose curve point shows the arrays it is given: it is
  \<open>(u * sum of the knots, u * sum of the weights, u)\<close>.
\<close>

definition probe :: "(SFVec3f \<times> SFVec3f) x3dom" where
  "probe =
     \<lparr>curvePoint3DH = (\<lambda>n p U P W u. Inr (SFVec3f (mul u (total U)) (mul u (total W)) u)),
      rotateFromTo = Pair\<rparr>"

text \<open>The clamped knot vector of three points with order 3.\<close>

definition clamped_knots :: "number list" where
  "clamped_knots = [Fin 0, Fin 0, Fin 0, Fin 1, Fin 1, Fin 1]"

section \<open>Arrays\<close>

lemma aget_nat: "aget a (int k) = (if k < length a then a ! k else NaN)"
  by (simp add: aget_def)

lemma foldl_aset_upt:
  "b \<le> length a \<Longrightarrow>
   foldl (\<lambda>ks k. aset ks k (f k)) a [i..<b] =
   map (\<lambda>k. if i \<le> k \<and> k < b then f k else a ! k) [0..<length a]"
proof (induction b)
  case 0
  show ?case by (simp add: map_nth)
next
  case (Suc b)
  show ?case
  proof (cases "i \<le> b")
    case True
    with Suc have "foldl (\<lambda>ks k. aset ks k (f k)) a [i..<Suc b] =
        (map (\<lambda>k. if i \<le> k \<and> k < b then f k else a ! k) [0..<length a])[b := f b]"
      by (simp add: aset_def)
    also have "\<dots> = map (\<lambda>k. if i \<le> k \<and> k < Suc b then f k else a ! k) [0..<length a]"
      using True by (auto intro!: nth_equalityI simp: nth_list_update less_Suc_eq)
    finally show ?thesis .
  next
    case False
    then show ?thesis by (auto simp: map_nth intro!: nth_equalityI)
  qed
qed

section \<open>The default knot vector\<close>

lemma knot_createDefaultKnots:
  "knot (createDefaultKnots s) =
   map (default_knot (length (points s)) (order s)) [0..<length (points s) + order s]"
proof -
  define n where "n = length (points s)"
  define p where "p = order s"
  define f where "f = (\<lambda>k. divide_number (Fin (real k - 1)) (Fin (real n - 1)))"
  define ks1 where "ks1 = foldl (\<lambda>ks k. aset ks k (f k)) (replicate (n + p) (Fin 0)) [p..<n]"
  have ks1: "ks1 = map (\<lambda>k. if p \<le> k \<and> k < n then f k else Fin 0) [0..<n + p]"
    unfolding ks1_def by (subst foldl_aset_upt) (auto intro!: nth_equalityI)
  then have len: "length ks1 = n + p" by simp
  have "knot (createDefaultKnots s) =
        foldl (\<lambda>ks k. aset ks k (Fin 1)) ks1 [length ks1 - p..<length ks1]"
    unfolding createDefaultKnots_def Let_def ks1_def f_def n_def p_def by simp
  also have "\<dots> = map (\<lambda>k. if n \<le> k \<and> k < n + p then Fin 1 else ks1 ! k) [0..<n + p]"
    by (subst foldl_aset_upt) (simp_all add: len)
  also have "\<dots> = map (default_knot n p) [0..<n + p]"
    by (rule nth_equalityI) (auto simp: ks1 default_knot_def f_def)
  finally show ?thesis by (simp only: n_def p_def)
qed

lemma length_knot_createDefaultKnots:
  "length (knot (createDefaultKnots s)) = length (points s) + order s"
  by (simp add: knot_createDefaultKnots)

lemma nth_knot_createDefaultKnots:
  "k < length (points s) + order s \<Longrightarrow>
   knot (createDefaultKnots s) ! k = default_knot (length (points s)) (order s) k"
  by (simp add: knot_createDefaultKnots)

text \<open>
  Claim C4, as amended. For every number of control points \<open>N\<close> and every order
  \<open>p \<ge> 2\<close>, \<open>createDefaultKnots\<close> stores a knot vector of length \<open>N + p\<close>; its
  first \<open>min N p\<close> entries are 0 (the first \<open>p\<close> when \<open>N \<ge> p\<close>), its last \<open>p\<close>
  entries are 1, and the entry at an index \<open>k\<close> with \<open>p \<le> k < N\<close> is
  \<open>(k-1)/(N-1)\<close>. Two nodes with the same \<open>N\<close> and \<open>p\<close> get the same vector, whatever
  their other fields hold.
\<close>

theorem createDefaultKnots_shape:
  assumes "2 \<le> order s"
  shows "length (knot (createDefaultKnots s)) = length (points s) + order s \<and>
         (\<forall>k. k < min (length (points s)) (order s) \<longrightarrow>
              knot (createDefaultKnots s) ! k = Fin 0) \<and>
         (\<forall>k. length (points s) \<le> k \<and> k < length (points s) + order s \<longrightarrow>
              knot (createDefaultKnots s) ! k = Fin 1) \<and>
         (\<forall>k. order s \<le> k \<and> k < length (points s) \<longrightarrow>
              knot (createDefaultKnots s) ! k =
                Fin ((real k - 1) / (real (length (points s)) - 1))) \<and>
         (\<forall>t::node. length (points t) = length (points s) \<and> order t = order s \<longrightarrow>
              knot (createDefaultKnots t) = knot (createDefaultKnots s))"
proof (intro conjI allI impI)
  show "length (knot (createDefaultKnots s)) = length (points s) + order s"
    by (rule length_knot_createDefaultKnots)
next
  fix k assume "k < min (length (points s)) (order s)"
  then show "knot (createDefaultKnots s) ! k = Fin 0"
    by (simp add: nth_knot_createDefaultKnots default_knot_def)
next
  fix k assume "length (points s) \<le> k \<and> k < length (points s) + order s"
  then show "knot (createDefaultKnots s) ! k = Fin 1"
    by (simp add: nth_knot_createDefaultKnots default_knot_def)
next
  fix k assume k: "order s \<le> k \<and> k < length (points s)"
  with assms have "real (length (points s)) - 1 \<noteq> 0" by auto
  with k show "knot (createDefaultKnots s) ! k =
                Fin ((real k - 1) / (real (length (points s)) - 1))"
    by (simp add: nth_knot_createDefaultKnots default_knot_def)
next
  fix t :: node assume "length (points t) = length (points s) \<and> order t = order s"
  then show "knot (createDefaultKnots t) = knot (createDefaultKnots s)"
    by (simp add: knot_createDefaultKnots)
qed

theorem createDefaultKnots_shape_witness:
  "2 \<le> order line_node \<and>
   length (knot (createDefaultKnots line_node)) = 7 \<and>
   knot (createDefaultKnots line_node) ! 2 = Fin 0 \<and>
   knot (createDefaultKnots line_node) ! 3 = Fin (2 / 3) \<and>
   knot (createDefaultKnots line_node) ! 4 = Fin 1 \<and>
   knot (createDefaultKnots (line_node\<lparr>knot := [Fin 5]\<rparr>)) = knot (createDefaultKnots line_node)"
proof -
  have h: "2 \<le> order line_node"
    by (simp add: line_node_def fresh_node_def)
  have n: "length (points line_node) = 4" "order line_node = 3"
    by (simp_all add: line_node_def fresh_node_def line_points_def)
  note t = createDefaultKnots_shape [OF h, unfolded n]
  from t have 1: "length (knot (createDefaultKnots line_node)) = 7" by simp
  from t have z: "\<forall>k. k < min 4 3 \<longrightarrow> knot (createDefaultKnots line_node) ! k = Fin 0" by blast
  from t have m: "\<forall>k. 3 \<le> k \<and> k < 4 \<longrightarrow> knot (createDefaultKnots line_node) ! k =
                Fin ((real k - 1) / (real 4 - 1))" by blast
  from t have o: "\<forall>k. 4 \<le> k \<and> k < 4 + 3 \<longrightarrow> knot (createDefaultKnots line_node) ! k = Fin 1" by blast
  from t have d: "\<forall>t::node. length (points t) = 4 \<and> order t = 3 \<longrightarrow>
       knot (createDefaultKnots t) = knot (createDefaultKnots line_node)" by blast
  have 2: "knot (createDefaultKnots line_node) ! 2 = Fin 0"
    using z [rule_format, of 2] by simp
  have 3: "knot (createDefaultKnots line_node) ! 3 = Fin (2 / 3)"
    using m [rule_format, of 3] by simp
  have 4: "knot (createDefaultKnots line_node) ! 4 = Fin 1"
    using o [rule_format, of 4] by simp
  have 5: "knot (createDefaultKnots (line_node\<lparr>knot := [Fin 5]\<rparr>)) = knot (createDefaultKnots line_node)"
    using d [rule_format, of "line_node\<lparr>knot := [Fin 5]\<rparr>"] n by simp
  show ?thesis using h 1 2 3 4 5 by simp
qed

text \<open>
  Claim C4 as stated fails when there are fewer points than the order: with one point and
  order 2 the second of the first two entries is 1, written by the loop that fills the
  last \<open>p\<close> entries.
\<close>

theorem createDefaultKnots_first_entries_counterexample:
  "2 \<le> order single_node \<and> 1 < order single_node \<and>
   knot (createDefaultKnots single_node) ! 1 = Fin 1"
  by (simp add: nth_knot_createDefaultKnots default_knot_def single_node_def)

text \<open>
  Claim C9, as amended. With at most one control point and an order of at least 2,
  \<open>createDefaultKnots\<close> never enters the loop that divides: the knot vector is one zero
  per control point followed by one 1 per unit of order, and every entry is finite.
\<close>

theorem createDefaultKnots_degenerate:
  assumes "length (points s) \<le> 1" and "2 \<le> order s"
  shows "knot (createDefaultKnots s) =
           replicate (length (points s)) (Fin 0) @ replicate (order s) (Fin 1)"
proof (rule nth_equalityI)
  show "length (knot (createDefaultKnots s)) =
        length (replicate (length (points s)) (Fin 0) @ replicate (order s) (Fin 1))"
    by (simp add: length_knot_createDefaultKnots)
next
  fix k assume "k < length (knot (createDefaultKnots s))"
  then have k: "k < length (points s) + order s"
    by (simp add: length_knot_createDefaultKnots)
  with assms show "knot (createDefaultKnots s) ! k =
        (replicate (length (points s)) (Fin 0) @ replicate (order s) (Fin 1)) ! k"
    by (auto simp: nth_knot_createDefaultKnots default_knot_def nth_append)
qed

theorem createDefaultKnots_degenerate_witness:
  "length (points single_node) \<le> 1 \<and> 2 \<le> order single_node \<and>
   knot (createDefaultKnots single_node) = [Fin 0, Fin 1, Fin 1]"
  using createDefaultKnots_degenerate [of single_node]
  by (simp add: single_node_def numeral_2_eq_2)

text \<open>
  Claim C9 as stated fails: with one control point and order 3 no entry of the derived
  knot vector is \<open>NaN\<close> or an infinity.
\<close>

theorem createDefaultKnots_no_NaN_counterexample:
  "length (points (single_node\<lparr>order := 3\<rparr>)) \<le> 1 \<and> 2 \<le> order (single_node\<lparr>order := 3\<rparr>) \<and>
   knot (createDefaultKnots (single_node\<lparr>order := 3\<rparr>)) = [Fin 0, Fin 1, Fin 1, Fin 1]"
  by code_simp

section \<open>The basis functions without the arrays left and right\<close>

lemma aget_filled:
  "1 \<le> k \<Longrightarrow> k \<le> m \<Longrightarrow> k < n \<Longrightarrow> aget (filled f n m) (int k) = f k"
  by (simp add: aget_nat filled_def)

lemma aset_filled:
  "Suc m < n \<Longrightarrow> aset (filled f n m) (Suc m) (f (Suc m)) = filled f n (Suc m)"
  unfolding aset_def filled_def
  by (auto intro!: nth_equalityI simp: nth_list_update)

lemma filled_0: "filled f n 0 = replicate n (Fin 0)"
  by (auto simp: filled_def intro!: nth_equalityI)

lemma init_arrays:
  "foldl (\<lambda>(left, right) j. (aset left j (Fin 0), aset right j (Fin 0))) ([], []) [0..<n] =
   (replicate n (Fin 0), replicate n (Fin 0))"
  by (induction n) (simp_all add: aset_def replicate_append_same)

lemma inner_eq:
  assumes "r < j" "j < n"
  shows "basisFuns_inner (filled (left_at i u U) n j) (filled (right_at i u U) n j) j Ns r =
         triangle_inner i u U j Ns r"
proof -
  have l: "aget (filled (left_at i u U) n j) (int j - int r) = left_at i u U (j - r)"
    using assms aget_filled [of "j - r" j n "left_at i u U"] by (simp add: of_nat_diff)
  have r: "aget (filled (right_at i u U) n j) (int r + 1) = right_at i u U (r + 1)"
    using assms aget_filled [of "r + 1" j n "right_at i u U"] by (simp add: add.commute)
  show ?thesis
    by (cases Ns) (simp add: basisFuns_inner_def triangle_inner_def l r)
qed

lemma depth_eq:
  assumes "Suc m < n"
  shows "basisFuns_depth i u U
           (N, filled (left_at i u U) n m, filled (right_at i u U) n m) (Suc m) =
         (triangle_row i u U N (Suc m), filled (left_at i u U) n (Suc m),
          filled (right_at i u U) n (Suc m))"
proof -
  let ?L = "filled (left_at i u U) n (Suc m)"
  let ?R = "filled (right_at i u U) n (Suc m)"
  have L: "aset (filled (left_at i u U) n m) (Suc m) (sub u (aget U (i + 1 - int (Suc m)))) = ?L"
    using aset_filled [OF assms, of "left_at i u U"] by (simp only: left_at_def)
  have R: "aset (filled (right_at i u U) n m) (Suc m) (sub (aget U (i + int (Suc m))) u) = ?R"
    using aset_filled [OF assms, of "right_at i u U"] by (simp only: right_at_def)
  have F: "foldl (basisFuns_inner ?L ?R (Suc m)) (N, Fin 0) [0..<Suc m] =
           foldl (triangle_inner i u U (Suc m)) (N, Fin 0) [0..<Suc m]"
    using assms by (intro foldl_cong) (auto simp: inner_eq)
  show ?thesis
    unfolding basisFuns_depth_def triangle_row_def Let_def prod.case L R F
    by (simp add: case_prod_beta)
qed

lemma depths_eq:
  "m < n \<Longrightarrow>
   foldl (basisFuns_depth i u U) (N, replicate n (Fin 0), replicate n (Fin 0)) [1..<Suc m] =
   (foldl (triangle_row i u U) N [1..<Suc m], filled (left_at i u U) n m,
    filled (right_at i u U) n m)"
proof (induction m)
  case 0
  show ?case by (simp add: filled_0)
next
  case (Suc m)
  then have IH:
    "foldl (basisFuns_depth i u U) (N, replicate n (Fin 0), replicate n (Fin 0)) [1..<Suc m] =
     (foldl (triangle_row i u U) N [1..<Suc m], filled (left_at i u U) n m,
      filled (right_at i u U) n m)"
    by simp
  have "[1..<Suc (Suc m)] = [1..<Suc m] @ [Suc m]" by simp
  then show ?case
    using depth_eq [OF Suc.prems, of i u U]
    by (simp only: foldl_append IH foldl.simps)
qed

lemma basisFuns_depths:
  assumes "0 \<le> p"
  shows "basisFuns i u p U = foldl (triangle_row i u U) [Fin 1] [1..<Suc (nat p)]"
proof -
  have m: "nat (p + 1) = Suc (nat p)"
    using assms by simp
  have a: "aset [] 0 (Fin 1) = [Fin 1]"
    by (simp add: aset_def)
  show ?thesis
    unfolding basisFuns_def Let_def init_arrays m a prod.case
    by (simp only: depths_eq [OF lessI] prod.case)
qed

text \<open>
  Claim C3, as amended. \<open>basisFuns\<close> computes its result by the triangular recurrence
  in which, at every depth \<open>j = 1..p\<close> and inner index \<open>r < j\<close>, the update is
  \<open>temp = N[r] / (right[r+1] + left[j-r])\<close>, \<open>N[r] = saved + right[r+1] * temp\<close>,
  \<open>saved = left[j-r] * temp\<close>, with \<open>left[k] = u - U[i+1-k]\<close> and
  \<open>right[k] = U[i+k] - u\<close>, and \<open>N[j] = saved\<close> closes every depth \<open>j\<close>.
\<close>

theorem basisFuns_recurrence:
  "basisFuns i u p U = foldl (triangle_row i u U) [Fin 1] [1..<nat (p + 1)]"
proof (cases "0 \<le> p")
  case True
  then have "nat (p + 1) = Suc (nat p)" by simp
  with True show ?thesis
    by (simp only: basisFuns_depths)
next
  case False
  then have "nat (p + 1) = 0" by simp
  then show ?thesis
    by (simp add: basisFuns_def aset_def)
qed

text \<open>
  Claim C3 as stated reads \<open>left[degree-r]\<close> in the update. For degree 2 on the knots
  \<open>0, 0, 0, 1, 1, 1\<close> at \<open>u = 1/2\<close> the source gives \<open>1/4, 1/2, 1/4\<close> and the
  recurrence as stated \<open>1/2, 1/2, 0\<close>.
\<close>

theorem basisFuns_spec_counterexample:
  "basisFuns 2 (Fin (1 / 2)) 2 clamped_knots = [Fin (1 / 4), Fin (1 / 2), Fin (1 / 4)] \<and>
   basisFuns_spec 2 (Fin (1 / 2)) 2 clamped_knots = [Fin (1 / 2), Fin (1 / 2), Fin 0]"
  by code_simp

section \<open>Partition of unity in exact arithmetic\<close>

lemma total_map_Fin: "foldl add (Fin a) (map Fin ns) = Fin (a + sum_list ns)"
  by (induction ns arbitrary: a) (simp_all add: add.assoc)

lemma aset_map_Fin_inside:
  "r < length ns \<Longrightarrow> aset (map Fin ns) r (Fin v) = map Fin (ns[r := v])"
  by (simp add: aset_def map_update)

lemma aset_map_Fin_end:
  "aset (map Fin ns) (length ns) (Fin v) = map Fin (ns @ [v])"
  by (simp add: aset_def)

lemma triangle_inner_step:
  assumes L: "left_at i u U (j - r) = Fin a" "0 \<le> a"
      and R: "right_at i u U (Suc r) = Fin b" "0 < b"
      and r: "r < length ns"
  shows "triangle_inner i u U j (map Fin ns, Fin sv) r =
         (map Fin (ns[r := sv + b * (ns ! r / (b + a))]), Fin (a * (ns ! r / (b + a))))"
proof -
  have "b + a \<noteq> 0" using L R by linarith
  then show ?thesis
    using r by (simp add: triangle_inner_def L R aget_nat aset_map_Fin_inside Let_def)
qed

lemma triangle_inner_invariant:
  assumes L: "\<And>k. 1 \<le> k \<Longrightarrow> k \<le> j \<Longrightarrow> left_at i u U k = Fin (l k) \<and> 0 \<le> l k"
      and R: "\<And>k. 1 \<le> k \<Longrightarrow> k \<le> j \<Longrightarrow> right_at i u U k = Fin (rt k) \<and> 0 < rt k"
      and ns: "length ns = j" "\<forall>x\<in>set ns. 0 \<le> x"
  shows "r \<le> j \<Longrightarrow>
         \<exists>ns' sv. foldl (triangle_inner i u U j) (map Fin ns, Fin 0) [0..<r] = (map Fin ns', Fin sv)
           \<and> length ns' = j \<and> (\<forall>k. r \<le> k \<and> k < j \<longrightarrow> ns' ! k = ns ! k)
           \<and> (\<forall>x\<in>set ns'. 0 \<le> x) \<and> 0 \<le> sv
           \<and> sum_list (take r ns') + sv = sum_list (take r ns)"
proof (induction r)
  case 0
  show ?case using ns by (intro exI [of _ ns] exI [of _ 0]) simp
next
  case (Suc r)
  then have "r \<le> j" and rj: "r < j" by simp_all
  with Suc.IH obtain ns' sv where
    f: "foldl (triangle_inner i u U j) (map Fin ns, Fin 0) [0..<r] = (map Fin ns', Fin sv)"
    and len: "length ns' = j"
    and same: "\<forall>k. r \<le> k \<and> k < j \<longrightarrow> ns' ! k = ns ! k"
    and pos: "\<forall>x\<in>set ns'. 0 \<le> x" and sv: "0 \<le> sv"
    and sum: "sum_list (take r ns') + sv = sum_list (take r ns)"
    by blast
  define a where "a = l (j - r)"
  define b where "b = rt (Suc r)"
  define t where "t = ns' ! r / (b + a)"
  have La: "left_at i u U (j - r) = Fin a" "0 \<le> a"
    using L [of "j - r"] rj by (simp_all add: a_def)
  have Rb: "right_at i u U (Suc r) = Fin b" "0 < b"
    using R [of "Suc r"] rj by (simp_all add: b_def)
  have nr: "0 \<le> ns' ! r" using pos rj len by simp
  have t0: "0 \<le> t" unfolding t_def using nr La Rb by simp
  have bat: "(b + a) * t = ns' ! r" unfolding t_def using La Rb by simp
  let ?ns = "ns'[r := sv + b * t]"
  have step: "foldl (triangle_inner i u U j) (map Fin ns, Fin 0) [0..<Suc r] =
              (map Fin ?ns, Fin (a * t))"
    using triangle_inner_step [OF La Rb, of ns' sv] rj len
    by (simp add: f t_def)
  have 1: "length ?ns = j" using len by simp
  have 2: "\<forall>k. Suc r \<le> k \<and> k < j \<longrightarrow> ?ns ! k = ns ! k"
    using same by simp
  have 3: "\<forall>x\<in>set ?ns. 0 \<le> x"
  proof
    fix x assume "x \<in> set ?ns"
    then have "x = sv + b * t \<or> x \<in> set ns'"
      using set_update_subset_insert [of ns' r "sv + b * t"] by auto
    then show "0 \<le> x" using pos sv t0 Rb by auto
  qed
  have 4: "0 \<le> a * t" using La t0 by simp
  have "take (Suc r) ?ns = take r ns' @ [sv + b * t]"
    using rj len by (simp add: take_Suc_conv_app_nth)
  moreover have "take (Suc r) ns = take r ns @ [ns ! r]"
    using rj ns by (simp add: take_Suc_conv_app_nth)
  moreover have "ns' ! r = ns ! r" using same rj by simp
  ultimately have 5: "sum_list (take (Suc r) ?ns) + a * t = sum_list (take (Suc r) ns)"
    using sum bat by (simp add: algebra_simps)
  show ?case using step 1 2 3 4 5 by blast
qed

lemma triangle_row_invariant:
  assumes L: "\<And>k. 1 \<le> k \<Longrightarrow> k \<le> j \<Longrightarrow> left_at i u U k = Fin (l k) \<and> 0 \<le> l k"
      and R: "\<And>k. 1 \<le> k \<Longrightarrow> k \<le> j \<Longrightarrow> right_at i u U k = Fin (rt k) \<and> 0 < rt k"
      and ns: "length ns = j" "\<forall>x\<in>set ns. 0 \<le> x"
  shows "\<exists>ns'. triangle_row i u U (map Fin ns) j = map Fin ns' \<and> length ns' = Suc j
           \<and> (\<forall>x\<in>set ns'. 0 \<le> x) \<and> sum_list ns' = sum_list ns"
proof -
  from triangle_inner_invariant [OF L R ns, of j] obtain ns' sv where
    f: "foldl (triangle_inner i u U j) (map Fin ns, Fin 0) [0..<j] = (map Fin ns', Fin sv)"
    and len: "length ns' = j"
    and pos: "\<forall>x\<in>set ns'. 0 \<le> x" and sv: "0 \<le> sv"
    and sum: "sum_list (take j ns') + sv = sum_list (take j ns)"
    by blast
  have "triangle_row i u U (map Fin ns) j = map Fin (ns' @ [sv])"
    using aset_map_Fin_end [of ns' sv] by (simp add: triangle_row_def f len)
  moreover have "sum_list (ns' @ [sv]) = sum_list ns"
    using sum len ns by simp
  ultimately show ?thesis using len pos sv
    by (intro exI [of _ "ns' @ [sv]"]) auto
qed

lemma triangle_rows_invariant:
  assumes L: "\<And>k. 1 \<le> k \<Longrightarrow> k \<le> m \<Longrightarrow> left_at i u U k = Fin (l k) \<and> 0 \<le> l k"
      and R: "\<And>k. 1 \<le> k \<Longrightarrow> k \<le> m \<Longrightarrow> right_at i u U k = Fin (rt k) \<and> 0 < rt k"
  shows "j \<le> m \<Longrightarrow>
         \<exists>ns. foldl (triangle_row i u U) [Fin 1] [1..<Suc j] = map Fin ns \<and> length ns = Suc j
           \<and> (\<forall>x\<in>set ns. 0 \<le> x) \<and> sum_list ns = 1"
proof (induction j)
  case 0
  show ?case by (intro exI [of _ "[1]"]) simp
next
  case (Suc j)
  then obtain ns where
    f: "foldl (triangle_row i u U) [Fin 1] [1..<Suc j] = map Fin ns"
    and ns: "length ns = Suc j" "\<forall>x\<in>set ns. 0 \<le> x" and sum: "sum_list ns = 1"
    by auto
  have L': "\<And>k. 1 \<le> k \<Longrightarrow> k \<le> Suc j \<Longrightarrow> left_at i u U k = Fin (l k) \<and> 0 \<le> l k"
    using L Suc.prems by simp
  have R': "\<And>k. 1 \<le> k \<Longrightarrow> k \<le> Suc j \<Longrightarrow> right_at i u U k = Fin (rt k) \<and> 0 < rt k"
    using R Suc.prems by simp
  from triangle_row_invariant [OF L' R' ns] obtain ns' where
    "triangle_row i u U (map Fin ns) (Suc j) = map Fin ns'" "length ns' = Suc (Suc j)"
    "\<forall>x\<in>set ns'. 0 \<le> x" "sum_list ns' = sum_list ns"
    by blast
  moreover have "foldl (triangle_row i u U) [Fin 1] [1..<Suc (Suc j)] =
                 triangle_row i u U (map Fin ns) (Suc j)"
    using f by simp
  ultimately show ?case using sum by (intro exI [of _ ns']) simp
qed

lemma all_finite_map_Fin: "\<forall>x\<in>set U. isFinite x \<Longrightarrow> \<exists>us. U = map Fin us"
proof (induction U)
  case Nil
  show ?case by simp
next
  case (Cons a U)
  then obtain us where "U = map Fin us" by auto
  moreover from Cons.prems obtain r where "a = Fin r" by (cases a) auto
  ultimately have "a # U = map Fin (r # us)" by simp
  then show ?case by (rule exI)
qed

lemma le_number_Fin [simp]: "le_number (Fin a) (Fin b) \<longleftrightarrow> a \<le> b"
  by (auto simp: le_number_def)

lemma aget_map_Fin:
  "0 \<le> k \<Longrightarrow> nat k < length us \<Longrightarrow> aget (map Fin us) k = Fin (us ! nat k)"
  by (simp add: aget_def)

lemma le_number_aget_range: "le_number (aget U k) u \<Longrightarrow> 0 \<le> k \<and> nat k < length U"
  by (cases "0 \<le> k \<and> nat k < length U") (auto simp: aget_def le_number_def)

lemma less_number_aget_range: "less_number u (aget U k) \<Longrightarrow> 0 \<le> k \<and> nat k < length U"
  by (cases "0 \<le> k \<and> nat k < length U"; cases u) (auto simp: aget_def)

lemma between_finite:
  "le_number (Fin a) u \<Longrightarrow> less_number u (Fin b) \<Longrightarrow> \<exists>x. u = Fin x \<and> a \<le> x \<and> x < b"
  by (cases u) (auto simp: le_number_def)

lemma sorted_map_Fin:
  assumes "sorted_wrt le_number (map Fin us)" "a \<le> b" "b < length us"
  shows "us ! a \<le> us ! b"
proof (cases "a = b")
  case True
  then show ?thesis by simp
next
  case False
  with assms have "le_number (map Fin us ! a) (map Fin us ! b)"
    by (simp add: sorted_wrt_iff_nth_less)
  with assms show ?thesis by simp
qed

text \<open>
  The recurrence over the reals. Let \<open>i\<close> be the span that holds \<open>u\<close> in a
  non-decreasing vector \<open>U\<close> of finite knots, \<open>U[i] \<le> u < U[i+1]\<close>, and let the
  degree \<open>p \<ge> 0\<close> leave the indices \<open>i+1-p\<close> to \<open>i+p\<close> inside \<open>U\<close>. With the exact
  operations of this theory no denominator is zero and the \<open>p + 1\<close> values are not
  negative and sum to 1. The source computes in doubles, whose sums, products and
  quotients round, overflow and underflow; the lemma is about the recurrence in exact
  arithmetic and not about the rounded values the program returns.
\<close>

lemma basisFuns_exact_partition_of_unity:
  assumes p: "0 \<le> p" "p \<le> i + 1" "i + p < int (length U)"
      and U: "\<forall>x\<in>set U. isFinite x" "sorted_wrt le_number U"
      and u: "le_number (aget U i) u" "less_number u (aget U (i + 1))"
  shows "length (basisFuns i u p U) = nat p + 1 \<and>
         (\<forall>x\<in>set (basisFuns i u p U). le_number (Fin 0) x) \<and>
         total (basisFuns i u p U) = Fin 1"
proof -
  from U(1) obtain us where us: "U = map Fin us"
    using all_finite_map_Fin by blast
  have i: "0 \<le> i" "nat i < length us" "nat (i + 1) < length us"
    using le_number_aget_range [OF u(1)] less_number_aget_range [OF u(2)]
    by (simp_all add: us)
  obtain x where x: "u = Fin x" "us ! nat i \<le> x" "x < us ! nat (i + 1)"
    using between_finite [of "us ! nat i" u "us ! nat (i + 1)"] u i
    by (auto simp: us aget_map_Fin)
  define l where "l k = x - us ! nat (i + 1 - int k)" for k
  define rt where "rt k = us ! nat (i + int k) - x" for k
  have L: "left_at i u U k = Fin (l k) \<and> 0 \<le> l k" if "1 \<le> k" "k \<le> nat p" for k
  proof -
    have k: "0 \<le> i + 1 - int k" "nat (i + 1 - int k) \<le> nat i" "nat (i + 1 - int k) < length us"
      using that p i by linarith+
    have "us ! nat (i + 1 - int k) \<le> us ! nat i"
      using sorted_map_Fin [of us] U(2) k i by (simp add: us)
    then show ?thesis
      using x k by (simp add: left_at_def us aget_map_Fin sub_def l_def)
  qed
  have R: "right_at i u U k = Fin (rt k) \<and> 0 < rt k" if "1 \<le> k" "k \<le> nat p" for k
  proof -
    have k: "0 \<le> i + int k" "nat (i + 1) \<le> nat (i + int k)" "nat (i + int k) < length us"
      using that p i by (simp_all add: us)
    have "us ! nat (i + 1) \<le> us ! nat (i + int k)"
      using sorted_map_Fin [of us] U(2) k by (simp add: us)
    then show ?thesis
      using x k by (simp add: right_at_def us aget_map_Fin sub_def rt_def)
  qed
  from triangle_rows_invariant [of "nat p" i u U l rt "nat p"] L R
  obtain ns where ns: "foldl (triangle_row i u U) [Fin 1] [1..<Suc (nat p)] = map Fin ns"
    "length ns = Suc (nat p)" "\<forall>x\<in>set ns. 0 \<le> x" "sum_list ns = 1"
    by auto
  have "basisFuns i u p U = map Fin ns"
    using p(1) by (simp only: basisFuns_depths ns)
  then show ?thesis
    using ns by (auto simp: total_def total_map_Fin)
qed

section \<open>Evaluation\<close>

lemma repaired_eq:
  "(let s1 = s\<lparr>points := pts\<rparr>;
        s2 = (if length (knot s) \<noteq> length pts + order s then createDefaultKnots s1 else s1)
    in if length (weight s2) \<noteq> length pts then s2\<lparr>weight := replicate (length pts) (Fin 1)\<rparr>
       else s2) = repaired s pts"
  by (simp add: Let_def repaired_def createDefaultKnots_def)

lemma getValue_absent: "controlPoint s = None \<Longrightarrow> getValue lib s u = (Inl TypeError, s)"
  by (simp add: getValue_def)

lemma getValue_present:
  assumes "controlPoint s = Some pts"
  shows "getValue lib s u =
           (case curvePoint lib (repaired s pts) u of
              Inl e \<Rightarrow> (Inl e, repaired s pts)
            | Inr p0 \<Rightarrow>
                (case curvePoint lib (repaired s pts) (add u (uShift_of (knot s))) of
                   Inl e \<Rightarrow> (Inl e, repaired s pts)
                 | Inr p1 \<Rightarrow> (Inr (rotateFromTo lib downZ (subtract p0 p1)), repaired s pts)))"
proof -
  have "getValue lib s u =
        (let s1 = s\<lparr>points := pts\<rparr>;
             s2 = (if length (knot s) \<noteq> length pts + order s then createDefaultKnots s1 else s1);
             s3 = (if length (weight s2) \<noteq> length pts
                   then s2\<lparr>weight := replicate (length pts) (Fin 1)\<rparr> else s2)
         in case curvePoint lib s3 u of
              Inl e \<Rightarrow> (Inl e, s3)
            | Inr p0 \<Rightarrow>
                (case curvePoint lib s3 (add u (uShift_of (knot s))) of
                   Inl e \<Rightarrow> (Inl e, s3)
                 | Inr p1 \<Rightarrow> (Inr (rotateFromTo lib downZ (subtract p0 p1)), s3)))"
    unfolding getValue_def uShift_of_def Let_def using assms
    by (simp cong: sum.case_cong)
  also have "\<dots> = (case curvePoint lib (repaired s pts) u of
              Inl e \<Rightarrow> (Inl e, repaired s pts)
            | Inr p0 \<Rightarrow>
                (case curvePoint lib (repaired s pts) (add u (uShift_of (knot s))) of
                   Inl e \<Rightarrow> (Inl e, repaired s pts)
                 | Inr p1 \<Rightarrow> (Inr (rotateFromTo lib downZ (subtract p0 p1)), repaired s pts)))"
    using repaired_eq [of pts s] unfolding Let_def by (simp only:)
  finally show ?thesis .
qed

lemma snd_getValue:
  "controlPoint s = Some pts \<Longrightarrow> snd (getValue lib s u) = repaired s pts"
  by (simp add: getValue_present split: sum.split)

lemma fst_getValue:
  "controlPoint s = Some pts \<Longrightarrow>
   fst (getValue lib s u) =
     (case curvePoint lib (repaired s pts) u of
        Inl e \<Rightarrow> Inl e
      | Inr p0 \<Rightarrow>
          (case curvePoint lib (repaired s pts) (add u (uShift_of (knot s))) of
             Inl e \<Rightarrow> Inl e
           | Inr p1 \<Rightarrow> Inr (rotateFromTo lib downZ (subtract p0 p1))))"
  by (simp add: getValue_present split: sum.split)

lemma repaired_fields:
  "order (repaired s pts) = order s"
  "controlPoint (repaired s pts) = controlPoint s"
  "points (repaired s pts) = pts"
  "knot (repaired s pts) =
     (if length (knot s) \<noteq> length pts + order s
      then knot (createDefaultKnots (s\<lparr>points := pts\<rparr>)) else knot s)"
  "weight (repaired s pts) =
     (if length (weight s) \<noteq> length pts then replicate (length pts) (Fin 1) else weight s)"
  by (simp_all add: repaired_def)

lemma length_knot_repaired: "length (knot (repaired s pts)) = length pts + order s"
  by (simp add: repaired_fields length_knot_createDefaultKnots)

lemma length_weight_repaired: "length (weight (repaired s pts)) = length pts"
  by (simp add: repaired_fields)

lemma repaired_idem: "repaired (repaired s pts) pts = repaired s pts"
proof -
  define t where "t = repaired s pts"
  have "length (knot t) = length pts + order t" "length (weight t) = length pts"
    "points t = pts"
    by (simp_all add: t_def length_knot_repaired length_weight_repaired
          repaired_fields(1,3))
  then have "repaired t pts = t"
    by (simp add: repaired_def [of t])
  then show ?thesis by (simp only: t_def)
qed

text \<open>
  Claim C7. With a coordinate node attached, \<open>getValue\<close> replaces a stored knot vector
  whose length differs from the number of control points plus the order by the default
  one, and leaves any other knot vector as it is. After the call the stored knot vector
  has that length, and a second call (at any parameter) leaves the node as the first
  call left it.
\<close>

theorem getValue_knot_repair:
  assumes "controlPoint s = Some pts"
  shows "knot (snd (getValue lib s u)) =
           (if length (knot s) \<noteq> length pts + order s
            then knot (createDefaultKnots (s\<lparr>points := pts\<rparr>)) else knot s) \<and>
         length (knot (createDefaultKnots (s\<lparr>points := pts\<rparr>))) = length pts + order s \<and>
         length (knot (snd (getValue lib s u))) = length pts + order s \<and>
         snd (getValue lib (snd (getValue lib s u)) u') = snd (getValue lib s u)"
proof -
  have "controlPoint (repaired s pts) = Some pts"
    using assms by (simp add: repaired_fields)
  then have "snd (getValue lib (repaired s pts) u') = repaired s pts"
    by (simp add: snd_getValue repaired_idem)
  then show ?thesis
    using assms
    by (simp add: snd_getValue length_knot_repaired length_knot_createDefaultKnots
          repaired_fields)
qed

theorem getValue_knot_repair_witness:
  "controlPoint fresh_node = Some line_points \<and>
   knot (snd (getValue stub fresh_node (Fin (1 / 2)))) =
     [Fin 0, Fin 0, Fin 0, Fin (2 / 3), Fin 1, Fin 1, Fin 1] \<and>
   length (knot (snd (getValue stub fresh_node (Fin (1 / 2))))) = 4 + 3 \<and>
   snd (getValue stub (snd (getValue stub fresh_node (Fin (1 / 2)))) (Fin (1 / 2))) =
     snd (getValue stub fresh_node (Fin (1 / 2)))"
proof -
  have h: "controlPoint fresh_node = Some line_points"
    by (simp add: fresh_node_def)
  have k: "knot (createDefaultKnots (fresh_node\<lparr>points := line_points\<rparr>)) =
           [Fin 0, Fin 0, Fin 0, Fin (2 / 3), Fin 1, Fin 1, Fin 1]"
    by code_simp
  have n: "length (knot fresh_node) = 0" "length line_points = 4" "order fresh_node = 3"
    by (simp_all add: fresh_node_def line_points_def)
  from getValue_knot_repair [OF h, of stub "Fin (1 / 2)" "Fin (1 / 2)"] h
  show ?thesis
    by (simp add: k n)
qed

text \<open>
  Claim C8. With a coordinate node attached, \<open>getValue\<close> replaces a stored weight
  array whose length differs from the number of control points by that many entries 1.0,
  and leaves any other weight array as it is; after the call the stored array has one
  entry per control point.
\<close>

theorem getValue_weight_repair:
  assumes "controlPoint s = Some pts"
  shows "weight (snd (getValue lib s u)) =
           (if length (weight s) \<noteq> length pts
            then replicate (length pts) (Fin 1) else weight s) \<and>
         length (weight (snd (getValue lib s u))) = length pts"
  using assms by (simp add: snd_getValue repaired_fields)

theorem getValue_weight_repair_witness:
  "controlPoint fresh_node = Some line_points \<and>
   weight (snd (getValue stub fresh_node (Fin (1 / 2)))) = [Fin 1, Fin 1, Fin 1, Fin 1] \<and>
   length (weight (snd (getValue stub fresh_node (Fin (1 / 2))))) = 4"
proof -
  have h: "controlPoint fresh_node = Some line_points"
    by (simp add: fresh_node_def)
  have n: "length (weight fresh_node) = 0" "length line_points = 4"
    by (simp_all add: fresh_node_def line_points_def)
  from getValue_weight_repair [OF h, of stub "Fin (1 / 2)"] h
  show ?thesis
    by (simp add: n numeral_eq_Suc)
qed

text \<open>
  Claim C10. The check of the stored knot vector looks at its length only: with a
  coordinate node attached and as many knots as control points plus order, \<open>getValue\<close>
  keeps the knot vector and hands it, as stored, to both curve evaluations; it throws
  only if the curve evaluation does. The knots need not be non-decreasing: the instance
  below has the strictly decreasing knots \<open>3, 2, 1, 0\<close>.
\<close>

theorem getValue_checks_length_only:
  assumes "controlPoint s = Some pts" and "length (knot s) = length pts + order s"
  shows "knot (snd (getValue lib s u)) = knot s \<and>
         fst (getValue lib s u) =
           (let W = (if length (weight s) \<noteq> length pts
                     then replicate (length pts) (Fin 1) else weight s);
                c = curvePoint3DH lib (int (length pts) - 1) (int (order s) - 1) (knot s) pts W
            in case c u of
                 Inl e \<Rightarrow> Inl e
               | Inr p0 \<Rightarrow>
                   (case c (add u (mul (sub (aget (knot s) (int (length (knot s)) - 1))
                                         (aget (knot s) 0)) fractionalShift)) of
                      Inl e \<Rightarrow> Inl e
                    | Inr p1 \<Rightarrow> Inr (rotateFromTo lib downZ (subtract p0 p1))))"
  using assms
  by (simp add: snd_getValue fst_getValue repaired_fields curvePoint_def uShift_of_def
        Let_def cong: sum.case_cong)

theorem getValue_checks_length_only_witness:
  "controlPoint decreasing_node =
     Some [SFVec3f (Fin 0) (Fin 0) (Fin 0), SFVec3f (Fin 0) (Fin 0) (Fin 1)] \<and>
   length (knot decreasing_node) = 2 + order decreasing_node \<and>
   sorted_wrt (\<lambda>a b. less_number b a) (knot decreasing_node) \<and>
   knot (snd (getValue stub decreasing_node (Fin 1))) = [Fin 3, Fin 2, Fin 1, Fin 0] \<and>
   fst (getValue stub decreasing_node (Fin 1)) =
     Inr (downZ, SFVec3f (Fin (3 / 100)) (Fin (3 / 100)) (Fin (3 / 100)))"
proof -
  have h: "controlPoint decreasing_node =
             Some [SFVec3f (Fin 0) (Fin 0) (Fin 0), SFVec3f (Fin 0) (Fin 0) (Fin 1)]"
    "length (knot decreasing_node) =
       length [SFVec3f (Fin 0) (Fin 0) (Fin 0), SFVec3f (Fin 0) (Fin 0) (Fin 1)] +
       order decreasing_node"
    by (simp_all add: decreasing_node_def)
  have d: "sorted_wrt (\<lambda>a b. less_number b a) (knot decreasing_node)"
    "knot decreasing_node = [Fin 3, Fin 2, Fin 1, Fin 0]"
    by (simp_all add: decreasing_node_def)
  from getValue_checks_length_only [OF h, of stub "Fin 1"] h d
  show ?thesis
    by (simp add: stub_def aget_def sub_def fractionalShift_def Let_def)
qed

text \<open>
  Claim C6, as amended. Without a coordinate node, \<open>getValue\<close> throws a
  \<open>TypeError\<close> before it writes or computes anything. With a coordinate node that has
  fewer points than the order, \<open>getValue\<close> throws nothing of its own: it repairs the
  knots (the default vector replaces a stored one of the wrong length) and the weights
  (entries 1.0 replace a stored array of the wrong length), stores both, and evaluates the
  curve on the repaired arrays at \<open>u\<close> and at \<open>u\<close> plus the shift taken from the knots
  stored before the call; its outcome is the exception of the curve evaluation or the
  rotation built from the two points.
\<close>

theorem getValue_without_count_check:
  "(controlPoint s = None \<longrightarrow> getValue lib s u = (Inl TypeError, s)) \<and>
   (\<forall>pts. controlPoint s = Some pts \<and> length pts < order s \<longrightarrow>
      (let K = (if length (knot s) \<noteq> length pts + order s
                then knot (createDefaultKnots (s\<lparr>points := pts\<rparr>)) else knot s);
           W = (if length (weight s) \<noteq> length pts
                then replicate (length pts) (Fin 1) else weight s);
           c = curvePoint3DH lib (int (length pts) - 1) (int (order s) - 1) K pts W
       in snd (getValue lib s u) = s\<lparr>points := pts, knot := K, weight := W\<rparr> \<and>
          fst (getValue lib s u) =
            (case c u of
               Inl e \<Rightarrow> Inl e
             | Inr p0 \<Rightarrow>
                 (case c (add u (mul (sub (aget (knot s) (int (length (knot s)) - 1))
                                       (aget (knot s) 0)) fractionalShift)) of
                    Inl e \<Rightarrow> Inl e
                  | Inr p1 \<Rightarrow> Inr (rotateFromTo lib downZ (subtract p0 p1))))))"
proof (intro conjI impI allI)
  assume "controlPoint s = None"
  then show "getValue lib s u = (Inl TypeError, s)"
    by (rule getValue_absent)
next
  fix pts
  assume "controlPoint s = Some pts \<and> length pts < order s"
  then have c: "controlPoint s = Some pts" by simp
  show "let K = (if length (knot s) \<noteq> length pts + order s
                then knot (createDefaultKnots (s\<lparr>points := pts\<rparr>)) else knot s);
           W = (if length (weight s) \<noteq> length pts
                then replicate (length pts) (Fin 1) else weight s);
           c = curvePoint3DH lib (int (length pts) - 1) (int (order s) - 1) K pts W
       in snd (getValue lib s u) = s\<lparr>points := pts, knot := K, weight := W\<rparr> \<and>
          fst (getValue lib s u) =
            (case c u of
               Inl e \<Rightarrow> Inl e
             | Inr p0 \<Rightarrow>
                 (case c (add u (mul (sub (aget (knot s) (int (length (knot s)) - 1))
                                       (aget (knot s) 0)) fractionalShift)) of
                    Inl e \<Rightarrow> Inl e
                  | Inr p1 \<Rightarrow> Inr (rotateFromTo lib downZ (subtract p0 p1))))"
    unfolding Let_def snd_getValue [OF c] fst_getValue [OF c] curvePoint_def uShift_of_def
      repaired_fields
    by (simp add: repaired_def)
qed

theorem getValue_without_count_check_witness:
  "controlPoint empty_node = None \<and>
   getValue probe empty_node (Fin 1) = (Inl TypeError, empty_node) \<and>
   controlPoint few_node = Some [SFVec3f (Fin 0) (Fin 0) (Fin 0)] \<and>
   length [SFVec3f (Fin 0) (Fin 0) (Fin 0)] < order few_node \<and>
   snd (getValue probe few_node (Fin 1)) =
     \<lparr>order = 3, knot = [Fin 0, Fin 1, Fin 1, Fin 1],
      controlPoint = Some [SFVec3f (Fin 0) (Fin 0) (Fin 0)], weight = [Fin 1],
      points = [SFVec3f (Fin 0) (Fin 0) (Fin 0)]\<rparr> \<and>
   fst (getValue probe few_node (Fin 1)) =
     Inr (downZ, SFVec3f (Fin (- 3 / 100)) (Fin (- 1 / 100)) (Fin (- 1 / 100)))"
proof -
  have e: "controlPoint empty_node = None"
    by (simp add: empty_node_def)
  have h: "controlPoint few_node = Some [SFVec3f (Fin 0) (Fin 0) (Fin 0)]"
    "length [SFVec3f (Fin 0) (Fin 0) (Fin 0)] < order few_node"
    by (simp_all add: few_node_def)
  have k: "knot (createDefaultKnots
                   \<lparr>order = 3, knot = [Fin 0, Fin 1],
                    controlPoint = Some [SFVec3f (Fin 0) (Fin 0) (Fin 0)], weight = [],
                    points = [SFVec3f (Fin 0) (Fin 0) (Fin 0)]\<rparr>) =
           [Fin 0, Fin 1, Fin 1, Fin 1]"
    by code_simp
  from getValue_without_count_check [of empty_node probe "Fin 1"] e
  have 1: "getValue probe empty_node (Fin 1) = (Inl TypeError, empty_node)"
    by simp
  from getValue_without_count_check [of few_node probe "Fin 1"] h
  have 2: "snd (getValue probe few_node (Fin 1)) =
     \<lparr>order = 3, knot = [Fin 0, Fin 1, Fin 1, Fin 1],
      controlPoint = Some [SFVec3f (Fin 0) (Fin 0) (Fin 0)], weight = [Fin 1],
      points = [SFVec3f (Fin 0) (Fin 0) (Fin 0)]\<rparr> \<and>
   fst (getValue probe few_node (Fin 1)) =
     Inr (downZ, SFVec3f (Fin (- 3 / 100)) (Fin (- 1 / 100)) (Fin (- 1 / 100)))"
    by (simp add: few_node_def k probe_def total_def aget_def sub_def fractionalShift_def
          Let_def)
  from e h 1 2 show ?thesis by simp
qed

text \<open>
  Claim C6 as stated fails: with one control point and order 3 no error is raised. The
  call stores the repaired knots and weights, and what it returns is built from the two
  curve points, evaluated on the repaired arrays.
\<close>

theorem getValue_few_points_counterexample:
  "controlPoint few_node = Some [SFVec3f (Fin 0) (Fin 0) (Fin 0)] \<and>
   length [SFVec3f (Fin 0) (Fin 0) (Fin 0)] < order few_node \<and>
   knot (snd (getValue probe few_node (Fin 2))) = [Fin 0, Fin 1, Fin 1, Fin 1] \<and>
   weight (snd (getValue probe few_node (Fin 2))) = [Fin 1] \<and>
   fst (getValue probe few_node (Fin 2)) =
     Inr (downZ, SFVec3f (Fin (- 3 / 100)) (Fin (- 1 / 100)) (Fin (- 1 / 100)))"
  by code_simp

text \<open>
  Claim C1 at the node with four control points, order 3 and the initial empty knot
  vector. The first call repairs the knots but computes the shift from the empty array
  the local variable \<open>knot\<close> still holds: the shift is \<open>NaN\<close> and the second curve
  point is taken at \<open>NaN\<close>. The second call, on the node as the first call left it,
  takes it at \<open>u + 0.01\<close>: the repaired knots span \<open>[0, 1]\<close>.
\<close>

theorem getValue_first_call_shift:
  "fst (getValue lib fresh_node u) =
     (let c = curvePoint3DH lib 3 2 [Fin 0, Fin 0, Fin 0, Fin (2 / 3), Fin 1, Fin 1, Fin 1]
                line_points [Fin 1, Fin 1, Fin 1, Fin 1]
      in case c u of
           Inl e \<Rightarrow> Inl e
         | Inr p0 \<Rightarrow>
             (case c NaN of
                Inl e \<Rightarrow> Inl e
              | Inr p1 \<Rightarrow> Inr (rotateFromTo lib downZ (subtract p0 p1)))) \<and>
   fst (getValue lib (snd (getValue lib fresh_node u)) u) =
     (let c = curvePoint3DH lib 3 2 [Fin 0, Fin 0, Fin 0, Fin (2 / 3), Fin 1, Fin 1, Fin 1]
                line_points [Fin 1, Fin 1, Fin 1, Fin 1]
      in case c u of
           Inl e \<Rightarrow> Inl e
         | Inr p0 \<Rightarrow>
             (case c (add u (Fin (1 / 100))) of
                Inl e \<Rightarrow> Inl e
              | Inr p1 \<Rightarrow> Inr (rotateFromTo lib downZ (subtract p0 p1))))"
proof -
  have h: "controlPoint fresh_node = Some line_points"
    by (simp add: fresh_node_def)
  have k: "knot (createDefaultKnots (fresh_node\<lparr>points := line_points\<rparr>)) =
           [Fin 0, Fin 0, Fin 0, Fin (2 / 3), Fin 1, Fin 1, Fin 1]"
    by code_simp
  have r: "repaired fresh_node line_points =
           \<lparr>order = 3, knot = [Fin 0, Fin 0, Fin 0, Fin (2 / 3), Fin 1, Fin 1, Fin 1],
            controlPoint = Some line_points, weight = [Fin 1, Fin 1, Fin 1, Fin 1],
            points = line_points\<rparr>"
    unfolding repaired_def k
    by (simp add: fresh_node_def line_points_def numeral_eq_Suc)
  have n: "add u NaN = NaN" by (cases u) simp_all
  have s0: "uShift_of (knot fresh_node) = NaN"
    by (simp add: uShift_of_def fresh_node_def aget_def sub_def)
  have s1: "uShift_of [Fin 0, Fin 0, Fin 0, Fin (2 / 3), Fin 1, Fin 1, Fin 1] = Fin (1 / 100)"
    by (simp add: uShift_of_def aget_def sub_def fractionalShift_def)
  have c: "controlPoint (repaired fresh_node line_points) = Some line_points"
    by (simp add: r)
  have l: "int (length line_points) - 1 = 3"
    by (simp add: line_points_def)
  have 1: "snd (getValue lib fresh_node u) = repaired fresh_node line_points"
    by (simp add: snd_getValue h)
  show ?thesis
    unfolding 1 fst_getValue [OF h] fst_getValue [OF c] repaired_idem s0 n
    unfolding r curvePoint_def
    by (simp add: s1 l Let_def cong: sum.case_cong)
qed

section \<open>Properties of the span lookup\<close>

lemma less_number_not_le: "less_number a b \<Longrightarrow> \<not> le_number b a"
  by (cases a; cases b) (auto simp: le_number_def)

lemma not_less_number_le: "a \<noteq> NaN \<Longrightarrow> b \<noteq> NaN \<Longrightarrow> \<not> less_number a b \<Longrightarrow> le_number b a"
  by (cases a; cases b) (auto simp: le_number_def)

lemma le_number_not_NaN: "le_number a b \<Longrightarrow> a \<noteq> NaN \<and> b \<noteq> NaN"
  by (cases a; cases b) (auto simp: le_number_def)

lemma less_number_not_NaN: "less_number a b \<Longrightarrow> a \<noteq> NaN \<and> b \<noteq> NaN"
  by (cases a; cases b) auto

lemma eq_number_le: "eq_number a b \<Longrightarrow> le_number b a"
  by (cases a; cases b) (auto simp: le_number_def)

lemma sorted_not_NaN:
  assumes "sorted_wrt le_number U" "2 \<le> length U" "k < length U"
  shows "U ! k \<noteq> NaN"
proof (cases "k = 0")
  case True
  with assms have "le_number (U ! 0) (U ! 1)"
    by (simp add: sorted_wrt_iff_nth_less)
  with True show ?thesis using le_number_not_NaN by blast
next
  case False
  with assms have "le_number (U ! 0) (U ! k)"
    by (simp add: sorted_wrt_iff_nth_less)
  then show ?thesis using le_number_not_NaN by blast
qed

lemma span_exists:
  assumes "\<And>k. k < length U \<Longrightarrow> U ! k \<noteq> NaN" "le_number (U ! 0) u"
  shows "m < length U \<Longrightarrow> less_number u (U ! m) \<Longrightarrow>
         \<exists>i<m. le_number (U ! i) u \<and> less_number u (U ! Suc i)"
proof (induction m)
  case 0
  with assms(2) show ?case using less_number_not_le by blast
next
  case (Suc m)
  show ?case
  proof (cases "less_number u (U ! m)")
    case True
    with Suc obtain i where "i < m" "le_number (U ! i) u \<and> less_number u (U ! Suc i)"
      by auto
    then show ?thesis using less_Suc_eq by blast
  next
    case False
    have "u \<noteq> NaN" using assms(2) le_number_not_NaN by blast
    moreover have "U ! m \<noteq> NaN" using assms(1) Suc.prems by simp
    ultimately have "le_number (U ! m) u"
      using False not_less_number_le by blast
    with Suc.prems show ?thesis by blast
  qed
qed

text \<open>
  Claim C5, on the span lookup as the specification describes it. In a non-decreasing
  knot vector, for \<open>u\<close> from the first knot up to but excluding the last, \<open>findSpan\<close>
  returns an index \<open>i\<close> with \<open>knot[i] \<le> u < knot[i+1]\<close>; for \<open>u\<close> equal to the last
  knot it returns \<open>n\<close>.
\<close>

theorem findSpan_containment:
  assumes "sorted_wrt le_number U"
  shows "(le_number (aget U 0) u \<and> less_number u (aget U (int (length U) - 1)) \<longrightarrow>
            (\<exists>i. findSpan n p u U = Some i \<and>
                 le_number (aget U i) u \<and> less_number u (aget U (i + 1)))) \<and>
         (eq_number u (aget U (int (length U) - 1)) \<longrightarrow> findSpan n p u U = Some n)"
proof (intro conjI impI)
  assume u: "le_number (aget U 0) u \<and> less_number u (aget U (int (length U) - 1))"
  then have ne: "U \<noteq> []"
    by (auto simp: aget_def le_number_def)
  then have last: "aget U (int (length U) - 1) = U ! (length U - 1)"
    by (cases U) (simp_all add: aget_def)
  have first: "aget U 0 = U ! 0"
    using ne by (simp add: aget_def)
  have "U ! 0 \<noteq> U ! (length U - 1)"
    using u less_number_not_le unfolding first last by force
  then have len: "2 \<le> length U"
    using ne by (cases U; cases "tl U") auto
  let ?P = "\<lambda>i. le_number (aget U (int i)) u \<and> less_number u (aget U (int i + 1))"
  have "\<exists>i<length U - 1. le_number (U ! i) u \<and> less_number u (U ! Suc i)"
    using span_exists [of U u "length U - 1"] sorted_not_NaN [OF assms len] u len
    unfolding first last by simp
  then obtain i where i: "i < length U - 1" "le_number (U ! i) u" "less_number u (U ! Suc i)"
    by blast
  moreover from i(1) have "i < length U" "Suc i < length U"
    by simp_all
  ultimately have "?P i"
    by (simp add: aget_def nat_add_distrib)
  with i(1) have "\<exists>x\<in>set [0..<length U - 1]. ?P x"
    by auto
  then obtain j where j: "find ?P [0..<length U - 1] = Some j"
    by (cases "find ?P [0..<length U - 1]") (auto simp: find_None_iff)
  then have "?P j"
    by (auto simp: find_Some_iff)
  moreover have "findSpan n p u U = Some (int j)"
    using u less_number_not_le j by (auto simp: findSpan_def)
  ultimately show "\<exists>i. findSpan n p u U = Some i \<and>
      le_number (aget U i) u \<and> less_number u (aget U (i + 1))"
    by blast
next
  assume "eq_number u (aget U (int (length U) - 1))"
  then show "findSpan n p u U = Some n"
    by (simp add: findSpan_def eq_number_le)
qed

theorem findSpan_containment_witness:
  "sorted_wrt le_number clamped_knots \<and>
   le_number (aget clamped_knots 0) (Fin (1 / 2)) \<and>
   less_number (Fin (1 / 2)) (aget clamped_knots (int (length clamped_knots) - 1)) \<and>
   findSpan 2 2 (Fin (1 / 2)) clamped_knots = Some 2 \<and>
   le_number (aget clamped_knots 2) (Fin (1 / 2)) \<and>
   less_number (Fin (1 / 2)) (aget clamped_knots (2 + 1)) \<and>
   eq_number (Fin 1) (aget clamped_knots (int (length clamped_knots) - 1)) \<and>
   findSpan 2 2 (Fin 1) clamped_knots = Some 2"
proof -
  have h: "sorted_wrt le_number clamped_knots"
    by (simp add: clamped_knots_def)
  have a: "le_number (aget clamped_knots 0) (Fin (1 / 2))"
    "less_number (Fin (1 / 2)) (aget clamped_knots (int (length clamped_knots) - 1))"
    "eq_number (Fin 1) (aget clamped_knots (int (length clamped_knots) - 1))"
    "le_number (aget clamped_knots 2) (Fin (1 / 2))"
    "less_number (Fin (1 / 2)) (aget clamped_knots (2 + 1))"
    by (simp_all add: clamped_knots_def aget_def)
  have v: "findSpan 2 2 (Fin (1 / 2)) clamped_knots = Some 2"
    by code_simp
  from findSpan_containment [OF h, of "Fin 1" 2 2] a
  have "findSpan 2 2 (Fin 1) clamped_knots = Some 2"
    by simp
  with h a v show ?thesis by simp
qed

end
